theory Spec2Isabelle
  imports Main "HOL-Library.Sublist"
begin

section \<open>The route table of \<open>todo/urls.py\<close>\<close>

text \<open>
  The module under study is a URL configuration:
  \<^verbatim>\<open>
  router = routers.DefaultRouter()
  router.register(r'todos', views.TodoView, 'todo')

  urlpatterns = [
      path('api/v1/', include(router.urls)),
      path('docs/', include_docs_urls(title='Todo API')),
  ]
  \<close>
  Every call in it is a call into Django or Django REST framework, so the embedding
  has two layers: the part of the two libraries that these five lines exercise
  (URL patterns and their matching, the resolver, the router's route templates, the
  binding of HTTP methods to view-set actions), and the module itself, translated
  statement by statement on top of that layer.
\<close>

subsection \<open>Requests\<close>

text \<open>The method names of \<open>View.http_method_names\<close>.\<close>

datatype http_method = GET | POST | PUT | PATCH | DELETE | HEAD | OPTIONS | TRACE

text \<open>
  The resolver reads \<open>request.path_info\<close>; the dispatcher of a view reads
  \<open>request.method\<close>. The query string is a separate component of the request
  (\<open>request.GET\<close>) and is never part of \<open>path_info\<close>.
\<close>

record request =
  req_method :: http_method
  path_info :: string
  query :: "(string \<times> string) list"

type_synonym kwargs = "(string \<times> string) list"

subsection \<open>Anchored patterns\<close>

text \<open>
  The regular expressions that occur in this route table are built from three forms
  only: literal text, a named group over a character class repeated one or more times
  (\<open>(?P<pk>[^/.]+)\<close>, \<open>(?P<format>[a-z0-9]+)\<close>) and an optional character
  (\<open>/?\<close>). A pattern is a list of such tokens, anchored at both ends
  (\<open>^ ... $\<close>): the resolver matches an endpoint pattern that ends in
  \<open>$\<close> against the whole remaining path (\<open>fullmatch\<close>).

  A path is a \<open>string\<close>, that is a list of bytes. Both character classes
  decide on single ASCII characters, so a character outside ASCII, which is several
  bytes none of which is \<open>/\<close>, \<open>.\<close>, a lower-case letter or a
  digit, is inside \<open>[^/.]\<close> and outside \<open>[a-z0-9]\<close> byte by byte
  as it is as one code point.
\<close>

datatype charclass = NotSlashDot | LowerAlnum

fun in_class :: "charclass \<Rightarrow> char \<Rightarrow> bool" where
  "in_class NotSlashDot c = (c \<noteq> CHR ''/'' \<and> c \<noteq> CHR ''.'')"
| "in_class LowerAlnum c = (c \<in> set ''abcdefghijklmnopqrstuvwxyz0123456789'')"

datatype tok = Lit string | Group string charclass | Opt char

fun first_some :: "'a option list \<Rightarrow> 'a option" where
  "first_some [] = None"
| "first_some (None # xs) = first_some xs"
| "first_some (Some x # xs) = Some x"

text \<open>
  Matching is the backtracking search of Python's \<open>re\<close>: a group is greedy, it
  first tries the longest run of characters of its class and gives characters back one
  by one while the rest of the pattern fails; an optional character is tried present
  first, then absent. The result is the \<open>groupdict()\<close> of the match, in the order
  of the groups.
\<close>

fun regex_match :: "tok list \<Rightarrow> string \<Rightarrow> kwargs option" where
  "regex_match [] s = (if s = [] then Some [] else None)"
| "regex_match (Lit l # ts) s =
     (if prefix l s then regex_match ts (drop (length l) s) else None)"
| "regex_match (Opt c # ts) s =
     (case (if prefix [c] s then regex_match ts (drop 1 s) else None) of
        Some kw \<Rightarrow> Some kw
      | None \<Rightarrow> regex_match ts s)"
| "regex_match (Group n cls # ts) s =
     first_some
       (map (\<lambda>k. map_option (Cons (n, take k s)) (regex_match ts (drop k s)))
            (rev [1..<Suc (length (takeWhile (in_class cls) s))]))"

subsection \<open>View-set actions and callbacks\<close>

datatype action =
  Act_list | Act_create | Act_retrieve | Act_update | Act_partial_update | Act_destroy

text \<open>
  A view-set class enters the router only through the question
  \<open>hasattr(viewset, action)\<close>. The class registered here, \<open>views.TodoView\<close>, is
  defined in \<open>todo/views.py\<close>, which is not among the files under study; it is
  therefore a parameter of the module, given as the list of the standard actions it
  defines. Further routes that \<open>@action\<close> methods of the class would add, and a
  \<open>lookup_field\<close> or \<open>lookup_value_regex\<close> that it might override, are not
  part of the model: the defaults (\<open>pk\<close>, \<open>[^/.]+\<close>) are used.
\<close>

type_synonym viewset = "action list"

text \<open>
  Modelled from the spec: \<open>todo/views.py\<close>, which defines the registered class
  \<open>TodoView\<close>, is missing; the spec describes the controller as providing list,
  create, retrieve, update and delete for the task resource. These five actions, and
  no other, are what the controller of the spec defines.
\<close>

definition spec_TodoView :: viewset where
  "spec_TodoView = [Act_list, Act_create, Act_retrieve, Act_update, Act_destroy]"

text \<open>
  The framework's own \<open>ModelViewSet\<close> class, for comparison: it defines all six
  standard actions, \<open>partial_update\<close> among them. It serves as a concrete
  view-set where a closed statement needs one.
\<close>

definition ModelViewSet :: viewset where
  "ModelViewSet =
     [Act_create, Act_retrieve, Act_update, Act_partial_update, Act_destroy, Act_list]"

text \<open>
  The callables a URL pattern can point to: a view-set bound to a method map
  (\<open>viewset.as_view(mapping)\<close>), the router's API root view with its dictionary
  from prefixes to list-route names, and the two documentation views.
\<close>

datatype callback =
  ViewSetView viewset "(http_method \<times> action) list"
| APIRootView "(string \<times> string) list"
| DocsView string
| SchemaJSView string

datatype handler = Action action | Get | Options

text \<open>
  \<open>dispatch\<close> of a view: the handler is the attribute named after the lower-cased
  method. A view-set view has one attribute per entry of its method map; \<open>head\<close>
  falls back to \<open>get\<close>; \<open>options\<close> is defined by \<open>APIView\<close> itself. A
  method without an attribute is answered with 405.
\<close>

fun dispatch :: "callback \<Rightarrow> http_method \<Rightarrow> handler option" where
  "dispatch (ViewSetView vs mapping) m =
     (case map_of mapping m of
        Some a \<Rightarrow> Some (Action a)
      | None \<Rightarrow>
          (if m = HEAD then map_option Action (map_of mapping GET)
           else if m = OPTIONS then Some Options
           else None))"
| "dispatch cb m =
     (if m = GET \<or> m = HEAD then Some Get
      else if m = OPTIONS then Some Options
      else None)"

subsection \<open>URL patterns and the resolver\<close>

text \<open>
  An entry of a URL configuration is an endpoint (\<open>URLPattern\<close>: pattern,
  callback, name) or an included configuration (\<open>URLResolver\<close>: a literal route
  prefix and the entries below it).
\<close>

datatype urlentry =
  URLPattern "tok list" callback string
| URLResolver string "urlentry list"

datatype resolver_match = ResolverMatch callback kwargs string

fun func :: "resolver_match \<Rightarrow> callback" where
  "func (ResolverMatch cb kw n) = cb"

fun url_name :: "resolver_match \<Rightarrow> string" where
  "url_name (ResolverMatch cb kw n) = n"

fun match_kwargs :: "resolver_match \<Rightarrow> kwargs" where
  "match_kwargs (ResolverMatch cb kw n) = kw"

text \<open>
  \<open>URLResolver.resolve\<close>: the entries are tried in order. An endpoint matches the
  whole remaining path. An included configuration matches when the path starts with
  its route; the rest of the path is resolved below it, and when nothing matches
  there (\<open>Resolver404\<close>) the search goes on with the next entry.
\<close>

fun resolve :: "urlentry list \<Rightarrow> string \<Rightarrow> resolver_match option" where
  "resolve [] p = None"
| "resolve (URLPattern pat cb n # es) p =
     (case regex_match pat p of
        Some kw \<Rightarrow> Some (ResolverMatch cb kw n)
      | None \<Rightarrow> resolve es p)"
| "resolve (URLResolver route sub # es) p =
     (if prefix route p then
        (case resolve sub (drop (length route) p) of
           Some m \<Rightarrow> Some m
         | None \<Rightarrow> resolve es p)
      else resolve es p)"

text \<open>\<open>path(route, view, name=...)\<close> and \<open>path(route, include(entries))\<close>.\<close>

definition path :: "string \<Rightarrow> callback \<Rightarrow> string \<Rightarrow> urlentry" where
  "path route view n = URLPattern [Lit route] view n"

definition path_include :: "string \<Rightarrow> urlentry list \<Rightarrow> urlentry" where
  "path_include route entries = URLResolver route entries"

subsection \<open>The router\<close>

text \<open>
  A route of the router: a URL template with the placeholders \<open>{prefix}\<close>,
  \<open>{lookup}\<close> and \<open>{trailing_slash}\<close>, the map from methods to actions, and
  the suffix of the route's name.
\<close>

datatype tmpl = T_prefix | T_lookup | T_trailing_slash | T_lit string

record route =
  url :: "tmpl list"
  mapping :: "(http_method \<times> action) list"
  name_suffix :: string
  detail :: bool

text \<open>
  \<open>SimpleRouter.routes\<close>: the list route \<open>^{prefix}{trailing_slash}$\<close> and
  the detail route \<open>^{prefix}/{lookup}{trailing_slash}$\<close>.
\<close>

definition routes :: "route list" where
  "routes =
     [\<lparr>url = [T_prefix, T_trailing_slash],
       mapping = [(GET, Act_list), (POST, Act_create)],
       name_suffix = ''-list'', detail = False\<rparr>,
      \<lparr>url = [T_prefix, T_lit ''/'', T_lookup, T_trailing_slash],
       mapping = [(GET, Act_retrieve), (PUT, Act_update),
                  (PATCH, Act_partial_update), (DELETE, Act_destroy)],
       name_suffix = ''-detail'', detail = True\<rparr>]"

record router =
  registry :: "(string \<times> viewset \<times> string) list"
  trailing_slash :: string
  include_root_view :: bool
  include_format_suffixes :: bool

text \<open>\<open>DefaultRouter()\<close>: no registrations, \<open>trailing_slash=True\<close>.\<close>

definition DefaultRouter :: router where
  "DefaultRouter =
     \<lparr>registry = [], trailing_slash = ''/'',
      include_root_view = True, include_format_suffixes = True\<rparr>"

definition register :: "router \<Rightarrow> string \<Rightarrow> viewset \<Rightarrow> string \<Rightarrow> router" where
  "register r pre vs basename = r\<lparr>registry := registry r @ [(pre, vs, basename)]\<rparr>"

text \<open>\<open>get_method_map\<close>: only the actions the view-set defines are bound.\<close>

definition get_method_map ::
  "viewset \<Rightarrow> (http_method \<times> action) list \<Rightarrow> (http_method \<times> action) list" where
  "get_method_map vs method_map = filter (\<lambda>(m, a). a \<in> set vs) method_map"

text \<open>\<open>get_lookup_regex\<close> with the defaults: \<open>(?P<pk>[^/.]+)\<close>.\<close>

definition get_lookup_regex :: tok where
  "get_lookup_regex = Group ''pk'' NotSlashDot"

fun format_url :: "tmpl list \<Rightarrow> string \<Rightarrow> string \<Rightarrow> tok list" where
  "format_url [] pre ts = []"
| "format_url (T_prefix # xs) pre ts = Lit pre # format_url xs pre ts"
| "format_url (T_lookup # xs) pre ts = get_lookup_regex # format_url xs pre ts"
| "format_url (T_trailing_slash # xs) pre ts = Lit ts # format_url xs pre ts"
| "format_url (T_lit l # xs) pre ts = Lit l # format_url xs pre ts"

text \<open>
  \<open>SimpleRouter.get_urls\<close>: for each registration and each route, the method map
  is bound to the view-set; a route whose bound map is empty is skipped. (The special
  case of an empty prefix, where the slash after \<open>^\<close> is dropped, does not
  arise: the only prefix registered is \<open>todos\<close>.)
\<close>

definition route_urls :: "router \<Rightarrow> string \<times> viewset \<times> string \<Rightarrow> urlentry list" where
  "route_urls r reg =
     (case reg of (pre, vs, basename) \<Rightarrow>
        concat (map (\<lambda>rt.
          let bound = get_method_map vs (mapping rt)
          in if bound = [] then []
             else [URLPattern (format_url (url rt) pre (trailing_slash r))
                              (ViewSetView vs bound) (basename @ name_suffix rt)])
          routes))"

definition simple_get_urls :: "router \<Rightarrow> urlentry list" where
  "simple_get_urls r = concat (map (route_urls r) (registry r))"

text \<open>
  \<open>format_suffix_patterns\<close>: every pattern is kept and followed by a copy whose
  regular expression is the original with the final \<open>$\<close> and then any final
  slashes removed, and \<open>\.(?P<format>[a-z0-9]+)/?$\<close> appended.
\<close>

definition rstrip_slash :: "string \<Rightarrow> string" where
  "rstrip_slash s = rev (dropWhile (\<lambda>c. c = CHR ''/'') (rev s))"

text \<open>
  On the token list the text of the regular expression ends with its last token, so
  the slashes are taken from the last literal, and from the one before it when
  nothing of the last is left; a group or an optional character ends the stripping.
\<close>

fun rstrip_tokens :: "tok list \<Rightarrow> tok list" where
  "rstrip_tokens (Lit l # ts) =
     (if rstrip_slash l = [] then rstrip_tokens ts else Lit (rstrip_slash l) # ts)"
| "rstrip_tokens ts = ts"

definition rstrip_pattern :: "tok list \<Rightarrow> tok list" where
  "rstrip_pattern pat = rev (rstrip_tokens (rev pat))"

definition suffix_pattern :: "tok list" where
  "suffix_pattern = [Lit ''.'', Group ''format'' LowerAlnum, Opt (CHR ''/'')]"

fun format_suffix_patterns :: "urlentry list \<Rightarrow> urlentry list" where
  "format_suffix_patterns [] = []"
| "format_suffix_patterns (URLPattern pat cb n # es) =
     URLPattern pat cb n # URLPattern (rstrip_pattern pat @ suffix_pattern) cb n
       # format_suffix_patterns es"
| "format_suffix_patterns (URLResolver route sub # es) =
     URLResolver route (format_suffix_patterns sub) # format_suffix_patterns es"

text \<open>
  \<open>DefaultRouter.get_urls\<close>: the routes of the registrations, then the API root
  view at \<open>^$\<close>, which lists for each registered prefix the name of its list route;
  then the format suffixes over all of them.
\<close>

definition api_root_dict :: "router \<Rightarrow> (string \<times> string) list" where
  "api_root_dict r = map (\<lambda>(pre, vs, basename). (pre, basename @ ''-list'')) (registry r)"

definition get_urls :: "router \<Rightarrow> urlentry list" where
  "get_urls r =
     (let urls0 = simple_get_urls r;
          urls1 = (if include_root_view r
                   then urls0 @ [URLPattern [] (APIRootView (api_root_dict r)) ''api-root'']
                   else urls0)
      in if include_format_suffixes r then format_suffix_patterns urls1 else urls1)"

subsection \<open>The documentation routes\<close>

text \<open>
  \<open>include_docs_urls(title)\<close>: the documentation index at the empty route and the
  schema script at \<open>schema.js\<close>.
\<close>

definition include_docs_urls :: "string \<Rightarrow> urlentry list" where
  "include_docs_urls title =
     [path '''' (DocsView title) ''docs-index'',
      path ''schema.js'' (SchemaJSView title) ''schema-js'']"

subsection \<open>The module\<close>

definition todo_router :: "viewset \<Rightarrow> router" where
  "todo_router TodoView = register DefaultRouter ''todos'' TodoView ''todo''"

definition urlpatterns :: "viewset \<Rightarrow> urlentry list" where
  "urlpatterns TodoView =
     [path_include ''api/v1/'' (get_urls (todo_router TodoView)),
      path_include ''docs/'' (include_docs_urls ''Todo API'')]"

text \<open>
  The root resolver of a URL configuration matches the leading slash of the request
  path (\<open>^/\<close>) and resolves the rest against \<open>urlpatterns\<close>. The
  module is taken as the root configuration, as the absolute paths of its closing
  comment and of the specification's table have it.
\<close>

definition resolve_path :: "viewset \<Rightarrow> string \<Rightarrow> resolver_match option" where
  "resolve_path TodoView p =
     (if prefix ''/'' p then resolve (urlpatterns TodoView) (drop 1 p) else None)"

text \<open>
  The answer to a request: 404 when no route matches, 405 when the matched view has no
  handler for the method, otherwise the call of that handler with the keywords of the
  match. A redirect that a middleware may issue after a failed resolution (appending
  a slash) depends on settings outside this module and is not part of the route table.
\<close>

datatype response = Http404 | Http405 | Called resolver_match handler

definition get_response :: "viewset \<Rightarrow> request \<Rightarrow> response" where
  "get_response TodoView req =
     (case resolve_path TodoView (path_info req) of
        None \<Rightarrow> Http404
      | Some m \<Rightarrow>
          (case dispatch (func m) (req_method req) of
             None \<Rightarrow> Http405
           | Some h \<Rightarrow> Called m h))"

text \<open>
  The two handlers of the resource controller: the view bound to the list route and
  the view bound to the detail route.
\<close>

definition collection_view :: "viewset \<Rightarrow> callback" where
  "collection_view TodoView =
     ViewSetView TodoView (get_method_map TodoView [(GET, Act_list), (POST, Act_create)])"

definition item_view :: "viewset \<Rightarrow> callback" where
  "item_view TodoView =
     ViewSetView TodoView
       (get_method_map TodoView
          [(GET, Act_retrieve), (PUT, Act_update),
           (PATCH, Act_partial_update), (DELETE, Act_destroy)])"

text \<open>A value the default lookup pattern \<open>[^/.]+\<close> accepts in full.\<close>

definition lookup_value :: "string \<Rightarrow> bool" where
  "lookup_value s = (s \<noteq> [] \<and> list_all (in_class NotSlashDot) s)"


subsection \<open>The groups of a pattern\<close>

text \<open>
  The named groups of a pattern with their character classes, in order
  (\<open>groupindex\<close>), and what it means for a key and value of a match to belong to
  such a group.
\<close>

fun groups :: "tok list \<Rightarrow> (string \<times> charclass) list" where
  "groups [] = []"
| "groups (Group n cls # ts) = (n, cls) # groups ts"
| "groups (t # ts) = groups ts"

definition group_value :: "string \<times> string \<Rightarrow> string \<times> charclass \<Rightarrow> bool" where
  "group_value kv g = (fst kv = fst g \<and> snd kv \<noteq> [] \<and> list_all (in_class (snd g)) (snd kv))"

subsection \<open>The route table as the specification prints it\<close>

text \<open>
  The six rows of the specification's table, read as written: the collection path
  \<open>/api/v1/todos\<close> for GET and POST, an item path \<open>/api/v1/todos/:id\<close>
  with a non-empty identifier for GET, PUT and DELETE, and \<open>/docs/\<close> for GET.
\<close>

definition spec_table :: "http_method \<Rightarrow> string \<Rightarrow> bool" where
  "spec_table m p =
     ((m \<in> {GET, POST} \<and> p = ''/api/v1/todos'')
      \<or> (m \<in> {GET, PUT, DELETE} \<and> prefix ''/api/v1/todos/'' p \<and> p \<noteq> ''/api/v1/todos/'')
      \<or> (m = GET \<and> p = ''/docs/''))"

section \<open>Properties of the matcher\<close>

lemma first_some_all_None: "(\<forall>x\<in>set xs. x = None) \<Longrightarrow> first_some xs = None"
  by (induction xs) auto

lemma first_some_head: "(\<forall>x\<in>set xs. x = None) \<Longrightarrow> first_some (y # xs) = y"
  by (cases y) (simp_all add: first_some_all_None)

lemma regex_match_Group_greedy:
  assumes cont: "\<And>x s'. in_class cls x \<Longrightarrow> regex_match ts (x # s') = None"
  shows "regex_match (Group n cls # ts) s =
     (if takeWhile (in_class cls) s = [] then None
      else map_option (Cons (n, takeWhile (in_class cls) s))
             (regex_match ts (dropWhile (in_class cls) s)))"
proof (cases "length (takeWhile (in_class cls) s)")
  case 0
  then show ?thesis by simp
next
  case (Suc j)
  let ?f = "\<lambda>k. map_option (Cons (n, take k s)) (regex_match ts (drop k s))"
  have shorter: "?f k = None" if "k \<le> j" for k
  proof -
    from that have k: "k < length (takeWhile (in_class cls) s)" using Suc by simp
    then have "k < length s"
      using length_takeWhile_le [of "in_class cls" s] by simp
    then have d: "drop k s = s ! k # drop (Suc k) s"
      by (simp add: Cons_nth_drop_Suc)
    have "takeWhile (in_class cls) s ! k \<in> set (takeWhile (in_class cls) s)"
      using k by simp
    then have "in_class cls (s ! k)"
      using k by (auto simp: takeWhile_nth dest: set_takeWhileD)
    then show ?thesis using cont d by simp
  qed
  have "regex_match (Group n cls # ts) s = first_some (?f (Suc j) # map ?f (rev [1..<Suc j]))"
    using Suc by simp
  also have "\<dots> = ?f (Suc j)"
    by (rule first_some_head) (auto simp del: upt_Suc simp: shorter)
  also have "take (Suc j) s = takeWhile (in_class cls) s"
    using Suc takeWhile_eq_take [of "in_class cls" s] by simp
  also have "drop (Suc j) s = dropWhile (in_class cls) s"
    using Suc dropWhile_eq_drop [of "in_class cls" s] by simp
  finally show ?thesis using Suc by auto
qed

lemma Group_then_Lit:
  assumes "\<not> in_class cls c"
  shows "regex_match (Group n cls # Lit (c # l) # ts) s =
     (if takeWhile (in_class cls) s = [] then None
      else map_option (Cons (n, takeWhile (in_class cls) s))
             (regex_match (Lit (c # l) # ts) (dropWhile (in_class cls) s)))"
  by (rule regex_match_Group_greedy) (use assms in auto)

lemma Group_then_Opt_end:
  assumes "\<not> in_class cls c"
  shows "regex_match [Group n cls, Opt c] s =
     (if takeWhile (in_class cls) s = [] then None
      else map_option (Cons (n, takeWhile (in_class cls) s))
             (regex_match [Opt c] (dropWhile (in_class cls) s)))"
  by (rule regex_match_Group_greedy) (use assms in auto)


lemma first_some_SomeD: "first_some xs = Some y \<Longrightarrow> Some y \<in> set xs"
  by (induction xs rule: first_some.induct) auto

lemma take_run_in_class:
  assumes "k \<le> length (takeWhile P s)"
  shows "list_all P (take k s)"
proof -
  have "take k s = take k (takeWhile P s)"
    using assms by (metis takeWhile_eq_take take_take min.absorb1)
  then show ?thesis
    by (auto simp: list_all_iff dest!: in_set_takeD set_takeWhileD)
qed

lemma regex_match_groups:
  "regex_match pat s = Some kw \<Longrightarrow> list_all2 group_value kw (groups pat)"
proof (induction pat arbitrary: s kw)
  case Nil
  then show ?case by (simp split: if_splits)
next
  case (Cons t ts)
  show ?case
  proof (cases t)
    case (Lit l)
    with Cons show ?thesis by (auto split: if_splits)
  next
    case (Opt c)
    with Cons show ?thesis by (auto split: if_splits option.splits)
  next
    case (Group n cls)
    let ?f = "\<lambda>k. map_option (Cons (n, take k s)) (regex_match ts (drop k s))"
    from Cons.prems Group
    have "Some kw \<in> set (map ?f (rev [1..<Suc (length (takeWhile (in_class cls) s))]))"
      by (auto dest: first_some_SomeD simp del: upt_Suc)
    then obtain k where kin: "k \<in> set [1..<Suc (length (takeWhile (in_class cls) s))]"
      and eq: "Some kw = ?f k"
      by (auto simp del: upt_Suc)
    from eq [symmetric] obtain kw' where kw: "kw = (n, take k s) # kw'"
      and rest: "regex_match ts (drop k s) = Some kw'"
      by (cases "regex_match ts (drop k s)") auto
    from kin have k: "1 \<le> k" "k \<le> length (takeWhile (in_class cls) s)"
      by (simp_all del: upt_Suc add: less_Suc_eq_le)
    have "k \<le> length s"
      using k(2) length_takeWhile_le [of "in_class cls" s] by simp
    with k(1) have "take k s \<noteq> []" by auto
    moreover have "list_all (in_class cls) (take k s)"
      using k(2) by (rule take_run_in_class)
    ultimately show ?thesis
      using Cons.IH [OF rest] kw Group by (simp add: group_value_def)
  qed
qed

lemma regex_match_ends:
  "regex_match (ts @ [Lit l]) s = Some kw \<Longrightarrow> suffix l s"
proof (induction ts arbitrary: s kw)
  case Nil
  then show ?case
    by (auto split: if_splits simp: prefix_def)
next
  case (Cons t ts)
  show ?case
  proof (cases t)
    case (Lit l')
    with Cons.prems have "regex_match (ts @ [Lit l]) (drop (length l') s) = Some kw"
      by (simp split: if_splits)
    from Cons.IH [OF this] show ?thesis
      by (rule suffix_order.trans) (rule suffix_drop)
  next
    case (Opt c)
    with Cons.prems
    have "regex_match (ts @ [Lit l]) (drop 1 s) = Some kw \<or> regex_match (ts @ [Lit l]) s = Some kw"
      by (auto split: if_splits option.splits)
    then show ?thesis
    proof
      assume "regex_match (ts @ [Lit l]) (drop 1 s) = Some kw"
      from Cons.IH [OF this] show ?thesis
        by (rule suffix_order.trans) (rule suffix_drop)
    next
      assume "regex_match (ts @ [Lit l]) s = Some kw"
      from Cons.IH [OF this] show ?thesis .
    qed
  next
    case (Group n cls)
    let ?f = "\<lambda>k. map_option (Cons (n, take k s)) (regex_match (ts @ [Lit l]) (drop k s))"
    from Cons.prems Group
    have "Some kw \<in> set (map ?f (rev [1..<Suc (length (takeWhile (in_class cls) s))]))"
      by (auto dest: first_some_SomeD simp del: upt_Suc)
    then obtain k where eq: "Some kw = ?f k"
      by (auto simp del: upt_Suc)
    from eq [symmetric] obtain kw' where "regex_match (ts @ [Lit l]) (drop k s) = Some kw'"
      by (cases "regex_match (ts @ [Lit l]) (drop k s)") auto
    from Cons.IH [OF this] show ?thesis
      by (rule suffix_order.trans) (rule suffix_drop)
  qed
qed

lemma format_keyword:
  assumes "regex_match pat s = Some kw" and "(''format'', cls) \<in> set (groups pat)"
  shows "\<exists>f. map_of kw ''format'' = Some f"
proof -
  from regex_match_groups [OF assms(1)] have l: "list_all2 group_value kw (groups pat)" .
  from assms(2) obtain i where i: "i < length (groups pat)" "groups pat ! i = (''format'', cls)"
    by (auto simp: in_set_conv_nth)
  with l have "i < length kw" "fst (kw ! i) = ''format''"
    by (auto simp: list_all2_conv_all_nth group_value_def)
  then have "''format'' \<in> fst ` set kw"
    by (metis nth_mem image_eqI)
  then show ?thesis
    by (cases "map_of kw ''format''") (auto simp: map_of_eq_None_iff)
qed

section \<open>The shape of the route table\<close>

lemma router_urls_shape:
  "get_urls (todo_router vs) =
     (if get_method_map vs [(GET, Act_list), (POST, Act_create)] = [] then []
      else [URLPattern [Lit ''todos'', Lit ''/''] (collection_view vs) ''todo-list'',
            URLPattern [Lit ''todos'', Lit ''.'', Group ''format'' LowerAlnum, Opt (CHR ''/'')]
              (collection_view vs) ''todo-list''])
     @ (if get_method_map vs [(GET, Act_retrieve), (PUT, Act_update),
            (PATCH, Act_partial_update), (DELETE, Act_destroy)] = [] then []
        else [URLPattern [Lit ''todos'', Lit ''/'', Group ''pk'' NotSlashDot, Lit ''/'']
                (item_view vs) ''todo-detail'',
              URLPattern [Lit ''todos'', Lit ''/'', Group ''pk'' NotSlashDot, Lit ''.'',
                          Group ''format'' LowerAlnum, Opt (CHR ''/'')]
                (item_view vs) ''todo-detail''])
     @ [URLPattern [] (APIRootView [(''todos'', ''todo-list'')]) ''api-root'',
        URLPattern [Lit ''.'', Group ''format'' LowerAlnum, Opt (CHR ''/'')]
          (APIRootView [(''todos'', ''todo-list'')]) ''api-root'']"
  by (simp add: get_urls_def todo_router_def register_def DefaultRouter_def
      simple_get_urls_def route_urls_def routes_def api_root_dict_def suffix_pattern_def
      get_lookup_regex_def rstrip_slash_def rstrip_pattern_def collection_view_def
      item_view_def Let_def)


lemma lookup_value_run:
  assumes "lookup_value ident"
  shows "ident \<noteq> []"
    and "takeWhile (in_class NotSlashDot) ident = ident"
    and "dropWhile (in_class NotSlashDot) ident = []"
    and "takeWhile (in_class NotSlashDot) (ident @ CHR ''/'' # r) = ident"
    and "dropWhile (in_class NotSlashDot) (ident @ CHR ''/'' # r) = CHR ''/'' # r"
  using assms by (simp_all add: lookup_value_def list_all_iff takeWhile_tail dropWhile_append3)

lemma mounts_disjoint: "prefix ''api/v1/'' r \<Longrightarrow> \<not> prefix ''docs/'' r"
  by (cases r) auto

lemma resolve_path_unfold:
  "resolve_path vs p =
     (if prefix ''/api/v1/'' p
      then resolve (get_urls (todo_router vs)) (drop (length ''/api/v1/'') p)
      else if prefix ''/docs/'' p
      then resolve (include_docs_urls ''Todo API'') (drop (length ''/docs/'') p)
      else None)"
proof (cases p)
  case Nil
  then show ?thesis by (simp add: resolve_path_def)
next
  case (Cons c r)
  show ?thesis
  proof (cases "c = CHR ''/''")
    case False
    with Cons show ?thesis by (simp add: resolve_path_def)
  next
    case slash: True
    show ?thesis
    proof (cases "prefix ''api/v1/'' r")
      case True
      then have "\<not> prefix ''docs/'' r" by (rule mounts_disjoint)
      with True Cons slash show ?thesis
        by (simp add: resolve_path_def urlpatterns_def path_include_def split: option.splits)
    next
      case False
      with Cons slash show ?thesis
        by (simp add: resolve_path_def urlpatterns_def path_include_def split: option.splits)
    qed
  qed
qed

lemma router_noslash: "lookup_value ident \<Longrightarrow>
   resolve (get_urls (todo_router vs)) (''todos/'' @ ident) = None"
  by (simp add: router_urls_shape Group_then_Lit Group_then_Opt_end lookup_value_run del: regex_match.simps(4))

lemma router_item:
  assumes "lookup_value ident"
    and "get_method_map vs [(GET, Act_retrieve), (PUT, Act_update),
           (PATCH, Act_partial_update), (DELETE, Act_destroy)] \<noteq> []"
  shows "resolve (get_urls (todo_router vs)) (''todos/'' @ ident @ ''/'') =
     Some (ResolverMatch (item_view vs) [(''pk'', ident)] ''todo-detail'')"
  using assms
  by (simp add: router_urls_shape Group_then_Lit Group_then_Opt_end lookup_value_run
      del: regex_match.simps(4))

lemma router_collection:
  assumes "get_method_map vs [(GET, Act_list), (POST, Act_create)] \<noteq> []"
  shows "resolve (get_urls (todo_router vs)) ''todos/'' =
     Some (ResolverMatch (collection_view vs) [] ''todo-list'')"
  using assms by (simp add: router_urls_shape)

lemma router_root:
  "resolve (get_urls (todo_router vs)) [] =
     Some (ResolverMatch (APIRootView [(''todos'', ''todo-list'')]) [] ''api-root'')"
  by (simp add: router_urls_shape)

lemma router_todos_noslash: "resolve (get_urls (todo_router vs)) ''todos'' = None"
  by (simp add: router_urls_shape)

lemma router_funcs:
  assumes "resolve (get_urls (todo_router vs)) s = Some m"
  shows "func m \<in> {collection_view vs, item_view vs, APIRootView [(''todos'', ''todo-list'')]}"
  using assms
  by (auto simp add: router_urls_shape simp del: regex_match.simps
      split: if_splits option.splits)

lemma docs_funcs:
  assumes "resolve (include_docs_urls title) s = Some m"
  shows "func m \<in> {DocsView title, SchemaJSView title}"
  using assms
  by (auto simp add: include_docs_urls_def path_def simp del: regex_match.simps
      split: if_splits option.splits)

lemma docs_index:
  "resolve (include_docs_urls title) [] = Some (ResolverMatch (DocsView title) [] ''docs-index'')"
  by (simp add: include_docs_urls_def path_def)

lemma router_detail_kwargs:
  assumes "resolve (get_urls (todo_router vs)) s = Some m" and "url_name m = ''todo-detail''"
  shows "\<exists>kw. m = ResolverMatch (item_view vs) kw ''todo-detail'' \<and>
     (regex_match [Lit ''todos'', Lit ''/'', Group ''pk'' NotSlashDot, Lit ''/''] s = Some kw \<or>
      regex_match [Lit ''todos'', Lit ''/'', Group ''pk'' NotSlashDot, Lit ''.'',
                          Group ''format'' LowerAlnum, Opt (CHR ''/'')] s = Some kw)"
  using assms
  by (auto simp add: router_urls_shape simp del: regex_match.simps split: if_splits option.splits)

lemma detail_pk:
  assumes "resolve_path vs p = Some m" and "url_name m = ''todo-detail''"
  shows "\<exists>v. map_of (match_kwargs m) ''pk'' = Some v \<and> lookup_value v"
proof -
  have docs: "resolve (include_docs_urls ''Todo API'') s = Some m \<Longrightarrow> False" for s
    using assms(2) by (auto simp: include_docs_urls_def path_def split: if_splits option.splits)
  from assms(1) have r: "resolve (get_urls (todo_router vs)) (drop (length ''/api/v1/'') p) = Some m"
    unfolding resolve_path_unfold by (auto split: if_splits dest: docs)
  from router_detail_kwargs [OF r assms(2)] obtain kw where
    m: "m = ResolverMatch (item_view vs) kw ''todo-detail''"
    and d: "regex_match [Lit ''todos'', Lit ''/'', Group ''pk'' NotSlashDot, Lit ''/'']
              (drop (length ''/api/v1/'') p) = Some kw \<or>
            regex_match [Lit ''todos'', Lit ''/'', Group ''pk'' NotSlashDot, Lit ''.'',
                          Group ''format'' LowerAlnum, Opt (CHR ''/'')]
              (drop (length ''/api/v1/'') p) = Some kw"
    by blast
  from d have "list_all2 group_value kw [(''pk'', NotSlashDot)] \<or>
         list_all2 group_value kw [(''pk'', NotSlashDot), (''format'', LowerAlnum)]"
  proof
    assume "regex_match [Lit ''todos'', Lit ''/'', Group ''pk'' NotSlashDot, Lit ''/'']
              (drop (length ''/api/v1/'') p) = Some kw"
    from regex_match_groups [OF this] show ?thesis by simp
  next
    assume "regex_match [Lit ''todos'', Lit ''/'', Group ''pk'' NotSlashDot, Lit ''.'',
                          Group ''format'' LowerAlnum, Opt (CHR ''/'')]
              (drop (length ''/api/v1/'') p) = Some kw"
    from regex_match_groups [OF this] show ?thesis by simp
  qed
  with m show ?thesis
    by (auto simp: list_all2_Cons2 group_value_def lookup_value_def)
qed

lemma router_match_cases:
  assumes "resolve (get_urls (todo_router vs)) s = Some m"
  shows "\<exists>pat. regex_match pat s = Some (match_kwargs m) \<and>
     pat \<in> {[Lit ''todos'', Lit ''/''],
            [Lit ''todos'', Lit ''.'', Group ''format'' LowerAlnum, Opt (CHR ''/'')],
            [Lit ''todos'', Lit ''/'', Group ''pk'' NotSlashDot, Lit ''/''],
            [Lit ''todos'', Lit ''/'', Group ''pk'' NotSlashDot, Lit ''.'',
             Group ''format'' LowerAlnum, Opt (CHR ''/'')],
            [],
            [Lit ''.'', Group ''format'' LowerAlnum, Opt (CHR ''/'')]}"
  using assms
  by (auto simp add: router_urls_shape simp del: regex_match.simps
      split: if_splits option.splits)

lemma router_slash_or_format:
  assumes "resolve (get_urls (todo_router vs)) s = Some m"
  shows "s = [] \<or> suffix ''/'' s \<or> (\<exists>f. map_of (match_kwargs m) ''format'' = Some f)"
proof -
  from router_match_cases [OF assms] obtain pat where
    r: "regex_match pat s = Some (match_kwargs m)"
    and mem: "pat \<in> {[Lit ''todos'', Lit ''/''],
            [Lit ''todos'', Lit ''.'', Group ''format'' LowerAlnum, Opt (CHR ''/'')],
            [Lit ''todos'', Lit ''/'', Group ''pk'' NotSlashDot, Lit ''/''],
            [Lit ''todos'', Lit ''/'', Group ''pk'' NotSlashDot, Lit ''.'',
             Group ''format'' LowerAlnum, Opt (CHR ''/'')],
            [],
            [Lit ''.'', Group ''format'' LowerAlnum, Opt (CHR ''/'')]}"
    by blast
  from mem consider
      (slash) "pat = [Lit ''todos''] @ [Lit ''/''] \<or>
               pat = [Lit ''todos'', Lit ''/'', Group ''pk'' NotSlashDot] @ [Lit ''/'']"
    | (root) "pat = []"
    | (fmt) "(''format'', LowerAlnum) \<in> set (groups pat)"
    by auto
  then show ?thesis
  proof cases
    case slash
    with r regex_match_ends show ?thesis by blast
  next
    case root
    with r show ?thesis by (simp split: if_splits)
  next
    case fmt
    from format_keyword [OF r fmt] show ?thesis by blast
  qed
qed

lemma api_slash_or_format:
  assumes "prefix ''/api/v1/'' p" and "resolve_path vs p = Some m"
  shows "suffix ''/'' p \<or> (\<exists>f. map_of (match_kwargs m) ''format'' = Some f)"
proof -
  from assms obtain s where p: "p = ''/api/v1/'' @ s"
    by (auto simp: prefix_def)
  with assms(2) have "resolve (get_urls (todo_router vs)) s = Some m"
    by (simp add: resolve_path_unfold)
  from router_slash_or_format [OF this] p show ?thesis
    by (auto simp: suffix_def)
qed


section \<open>The routes with the trailing slash\<close>

text \<open>
  What the route table does for the paths that end in a slash: the collection path
  reaches the list and create actions, the item path the action bound to the method,
  and 405 when the view-set does not define that action. A path with a format suffix
  reaches the same views with the extra keyword \<open>format\<close>.
\<close>

lemma collection_with_slash:
  assumes "Act_list \<in> set vs" and "Act_create \<in> set vs"
  shows "get_response vs \<lparr>req_method = GET, path_info = ''/api/v1/todos/'', query = q\<rparr> =
           Called (ResolverMatch (collection_view vs) [] ''todo-list'') (Action Act_list)"
    and "get_response vs \<lparr>req_method = POST, path_info = ''/api/v1/todos/'', query = q\<rparr> =
           Called (ResolverMatch (collection_view vs) [] ''todo-list'') (Action Act_create)"
proof -
  from assms have ne: "get_method_map vs [(GET, Act_list), (POST, Act_create)] \<noteq> []"
    by (simp add: get_method_map_def)
  have d: "dispatch (collection_view vs) GET = Some (Action Act_list)"
    "dispatch (collection_view vs) POST = Some (Action Act_create)"
    using assms by (simp_all add: collection_view_def get_method_map_def)
  from router_collection [OF ne] d
  show "get_response vs \<lparr>req_method = GET, path_info = ''/api/v1/todos/'', query = q\<rparr> =
           Called (ResolverMatch (collection_view vs) [] ''todo-list'') (Action Act_list)"
    and "get_response vs \<lparr>req_method = POST, path_info = ''/api/v1/todos/'', query = q\<rparr> =
           Called (ResolverMatch (collection_view vs) [] ''todo-list'') (Action Act_create)"
    by (simp_all add: get_response_def resolve_path_unfold)
qed



lemma format_suffix_example:
  "resolve_path ModelViewSet ''/api/v1/todos/5.json'' =
     Some (ResolverMatch (item_view ModelViewSet) [(''pk'', ''5''), (''format'', ''json'')]
             ''todo-detail'')"
  by (simp add: resolve_path_unfold router_urls_shape ModelViewSet_def get_method_map_def
      item_view_def)

section \<open>The claims\<close>

text \<open>
  C1. The claim: a GET with path \<open>/api/v1/todos\<close> resolves to the collection
  handler performing the list action, and a POST with the same path to the collection
  handler performing the create action. The comment at the end of the module documents
  the same two routes. On the route table the module builds, the path
  \<open>/api/v1/todos\<close> matches no pattern, whatever the method, the query and the
  actions of the registered view-set: the answer is 404.
\<close>

theorem todos_without_slash_not_found:
  "get_response vs \<lparr>req_method = GET, path_info = ''/api/v1/todos'', query = q\<rparr> = Http404
   \<and> get_response vs \<lparr>req_method = POST, path_info = ''/api/v1/todos'', query = q\<rparr> = Http404"
  by (simp add: get_response_def resolve_path_unfold router_todos_noslash)

text \<open>
  C2. The claim: for every well-formed identifier, a GET, PUT or DELETE with path
  \<open>/api/v1/todos/<id>\<close> resolves to the item handler for that identifier. The
  comment at the end of the module documents the same routes. On the route table the
  module builds, the path \<open>/api/v1/todos/5\<close> matches no pattern: the answer is
  404 for each of the three methods.
\<close>

theorem item_without_slash_not_found:
  "get_response vs \<lparr>req_method = GET, path_info = ''/api/v1/todos/5'', query = q\<rparr> = Http404
   \<and> get_response vs \<lparr>req_method = PUT, path_info = ''/api/v1/todos/5'', query = q\<rparr> = Http404
   \<and> get_response vs \<lparr>req_method = DELETE, path_info = ''/api/v1/todos/5'', query = q\<rparr> = Http404"
  using router_noslash [of "''5''" vs]
  by (simp add: get_response_def resolve_path_unfold lookup_value_def)

text \<open>
  C3. For every request path that begins neither with \<open>/api/v1/\<close> nor with
  \<open>/docs/\<close>, route resolution yields no handler, and the request is answered
  with 404 whatever its method and query.
\<close>

theorem no_route_outside_mounts:
  assumes "\<not> prefix ''/api/v1/'' p" and "\<not> prefix ''/docs/'' p"
  shows "resolve_path vs p = None
     \<and> get_response vs \<lparr>req_method = m, path_info = p, query = q\<rparr> = Http404"
  using assms by (simp add: get_response_def resolve_path_unfold)

theorem no_route_outside_mounts_witness:
  "\<not> prefix ''/api/v1/'' ''/admin/'' \<and> \<not> prefix ''/docs/'' ''/admin/''
   \<and> resolve_path ModelViewSet ''/admin/'' = None
   \<and> get_response ModelViewSet \<lparr>req_method = GET, path_info = ''/admin/'', query = []\<rparr> = Http404"
  using no_route_outside_mounts [of "''/admin/''" ModelViewSet GET "[]"] by simp

text \<open>
  C4. Any two GET requests with path \<open>/docs/\<close> get the same answer, the
  documentation index view, whatever their query parameters are.
\<close>

theorem docs_ignores_query:
  assumes "req_method r1 = GET" and "path_info r1 = ''/docs/''"
    and "req_method r2 = GET" and "path_info r2 = ''/docs/''"
  shows "get_response vs r1 = get_response vs r2
     \<and> get_response vs r1 =
         Called (ResolverMatch (DocsView ''Todo API'') [] ''docs-index'') Get"
  using assms by (simp add: get_response_def resolve_path_unfold docs_index)

theorem docs_ignores_query_witness:
  "get_response ModelViewSet \<lparr>req_method = GET, path_info = ''/docs/'', query = []\<rparr> =
     get_response ModelViewSet
       \<lparr>req_method = GET, path_info = ''/docs/'', query = [(''format'', ''json'')]\<rparr>
   \<and> get_response ModelViewSet \<lparr>req_method = GET, path_info = ''/docs/'', query = []\<rparr> =
       Called (ResolverMatch (DocsView ''Todo API'') [] ''docs-index'') Get"
  by (rule docs_ignores_query) simp_all

text \<open>
  C5. The claim as stated: every matched path is handled either by the todo resource
  controller or by the documentation view, and no other handler exists. It fails at
  the path \<open>/api/v1/\<close>, which resolves to the router's API root view: that view
  is neither of the controller's two views nor the documentation view.
\<close>

theorem api_root_is_a_third_handler:
  "resolve_path ModelViewSet ''/api/v1/'' =
     Some (ResolverMatch (APIRootView [(''todos'', ''todo-list'')]) [] ''api-root'')
   \<and> APIRootView [(''todos'', ''todo-list'')] \<noteq> collection_view ModelViewSet
   \<and> APIRootView [(''todos'', ''todo-list'')] \<noteq> item_view ModelViewSet
   \<and> APIRootView [(''todos'', ''todo-list'')] \<noteq> DocsView ''Todo API''"
  by (simp add: resolve_path_unfold router_root collection_view_def item_view_def)

text \<open>
  C5, amended. Every matched path lies under exactly one of the two mount points:
  under \<open>/api/v1/\<close> it is handled by a view the router generated (the
  controller's collection view, its item view, or the router's API root view), under
  \<open>/docs/\<close> by one of the two documentation views (the index or the schema
  script). No other handler exists.
\<close>

theorem matched_path_handlers:
  assumes "resolve_path vs p = Some m"
  shows "(prefix ''/api/v1/'' p \<and> \<not> prefix ''/docs/'' p \<and>
            func m \<in> {collection_view vs, item_view vs,
                       APIRootView [(''todos'', ''todo-list'')]})
         \<or> (prefix ''/docs/'' p \<and> \<not> prefix ''/api/v1/'' p \<and>
            func m \<in> {DocsView ''Todo API'', SchemaJSView ''Todo API''})"
proof (cases "prefix ''/api/v1/'' p")
  case True
  then have nd: "\<not> prefix ''/docs/'' p"
    by (cases p) (auto dest: mounts_disjoint)
  from assms True
  have "resolve (get_urls (todo_router vs)) (drop (length ''/api/v1/'') p) = Some m"
    by (simp add: resolve_path_unfold)
  from router_funcs [OF this] True nd show ?thesis by blast
next
  case False
  with assms have d: "prefix ''/docs/'' p"
    and "resolve (include_docs_urls ''Todo API'') (drop (length ''/docs/'') p) = Some m"
    by (auto simp add: resolve_path_unfold split: if_splits)
  from docs_funcs [OF this(2)] d False show ?thesis by blast
qed

theorem matched_path_handlers_witness:
  "resolve_path ModelViewSet ''/docs/schema.js'' =
     Some (ResolverMatch (SchemaJSView ''Todo API'') [] ''schema-js'')
   \<and> prefix ''/docs/'' ''/docs/schema.js'' \<and> \<not> prefix ''/api/v1/'' ''/docs/schema.js''
   \<and> SchemaJSView ''Todo API'' \<in> {DocsView ''Todo API'', SchemaJSView ''Todo API''}"
proof -
  have h: "resolve_path ModelViewSet ''/docs/schema.js'' =
     Some (ResolverMatch (SchemaJSView ''Todo API'') [] ''schema-js'')"
    by (simp add: resolve_path_unfold include_docs_urls_def path_def)
  from matched_path_handlers [OF h] h show ?thesis by simp
qed

text \<open>
  C7. A GET with path \<open>/api/v1/\<close> is answered by the router's API root view,
  which lists the registered prefix \<open>todos\<close> with the name of its list route;
  this route is not among the six rows of the specification's table.
\<close>

theorem api_root_route:
  "get_response vs \<lparr>req_method = GET, path_info = ''/api/v1/'', query = q\<rparr> =
     Called (ResolverMatch (APIRootView [(''todos'', ''todo-list'')]) [] ''api-root'') Get
   \<and> \<not> spec_table GET ''/api/v1/''"
  by (simp add: get_response_def resolve_path_unfold router_root spec_table_def)




text \<open>
  C9. The claim as stated: the router-generated patterns require a trailing slash, so
  that an item or collection path without it matches nothing. It fails at
  \<open>/api/v1/todos.json\<close> and \<open>/api/v1/todos/5.json\<close>: neither ends in a
  slash, and both match the format-suffix patterns the router generates.
\<close>

theorem format_suffix_matches_without_slash:
  "resolve_path spec_TodoView ''/api/v1/todos.json'' =
     Some (ResolverMatch (collection_view spec_TodoView) [(''format'', ''json'')] ''todo-list'')
   \<and> resolve_path spec_TodoView ''/api/v1/todos/5.json'' =
     Some (ResolverMatch (item_view spec_TodoView) [(''pk'', ''5''), (''format'', ''json'')]
             ''todo-detail'')
   \<and> \<not> suffix ''/'' ''/api/v1/todos.json'' \<and> \<not> suffix ''/'' ''/api/v1/todos/5.json''"
  by (simp add: resolve_path_unfold router_urls_shape spec_TodoView_def get_method_map_def
      item_view_def collection_view_def suffix_def)

text \<open>
  C9, amended. The router's list and detail patterns require the trailing slash:
  \<open>/api/v1/todos/\<close> resolves to the collection view and \<open>/api/v1/todos\<close>
  to nothing; \<open>/api/v1/todos/<id>/\<close> resolves to the item view with that
  identifier exactly when the identifier is accepted by the default lookup pattern
  (non-empty, without \<open>/\<close> and without \<open>.\<close>), and for such an identifier
  \<open>/api/v1/todos/<id>\<close> resolves to nothing. The only paths under
  \<open>/api/v1/\<close> that match without a trailing slash are those of the
  format-suffix patterns: every such match carries the keyword \<open>format\<close>.
\<close>

theorem slash_required_except_format_suffix:
  assumes "Act_list \<in> set vs" and "Act_retrieve \<in> set vs"
  shows "resolve_path vs ''/api/v1/todos/'' =
           Some (ResolverMatch (collection_view vs) [] ''todo-list'')
     \<and> resolve_path vs ''/api/v1/todos'' = None
     \<and> (resolve_path vs (''/api/v1/todos/'' @ ident @ ''/'') =
           Some (ResolverMatch (item_view vs) [(''pk'', ident)] ''todo-detail'')
         \<longleftrightarrow> lookup_value ident)
     \<and> (lookup_value ident \<longrightarrow> resolve_path vs (''/api/v1/todos/'' @ ident) = None)
     \<and> (prefix ''/api/v1/'' p \<and> resolve_path vs p = Some m \<and> \<not> suffix ''/'' p \<longrightarrow>
          (\<exists>f. map_of (match_kwargs m) ''format'' = Some f))"
proof -
  from assms have ne1: "get_method_map vs [(GET, Act_list), (POST, Act_create)] \<noteq> []"
    and ne2: "get_method_map vs [(GET, Act_retrieve), (PUT, Act_update),
           (PATCH, Act_partial_update), (DELETE, Act_destroy)] \<noteq> []"
    by (simp_all add: get_method_map_def)
  have a: "resolve_path vs ''/api/v1/todos/'' =
      Some (ResolverMatch (collection_view vs) [] ''todo-list'')"
    using router_collection [OF ne1] by (simp add: resolve_path_unfold)
  have b: "resolve_path vs ''/api/v1/todos'' = None"
    by (simp add: resolve_path_unfold router_todos_noslash)
  have c: "resolve_path vs (''/api/v1/todos/'' @ ident @ ''/'') =
           Some (ResolverMatch (item_view vs) [(''pk'', ident)] ''todo-detail'')
         \<longleftrightarrow> lookup_value ident"
  proof
    assume r: "resolve_path vs (''/api/v1/todos/'' @ ident @ ''/'') =
           Some (ResolverMatch (item_view vs) [(''pk'', ident)] ''todo-detail'')"
    from detail_pk [OF r] show "lookup_value ident" by simp
  next
    assume "lookup_value ident"
    from router_item [OF this ne2]
    show "resolve_path vs (''/api/v1/todos/'' @ ident @ ''/'') =
           Some (ResolverMatch (item_view vs) [(''pk'', ident)] ''todo-detail'')"
      by (simp add: resolve_path_unfold)
  qed
  have d: "lookup_value ident \<longrightarrow> resolve_path vs (''/api/v1/todos/'' @ ident) = None"
    using router_noslash [of ident vs] by (simp add: resolve_path_unfold)
  have e: "prefix ''/api/v1/'' p \<and> resolve_path vs p = Some m \<and> \<not> suffix ''/'' p \<longrightarrow>
          (\<exists>f. map_of (match_kwargs m) ''format'' = Some f)"
    using api_slash_or_format [of p vs m] by blast
  from a b c d e show ?thesis by blast
qed

theorem slash_required_except_format_suffix_witness:
  "Act_list \<in> set spec_TodoView \<and> Act_retrieve \<in> set spec_TodoView \<and> lookup_value ''5''
   \<and> resolve_path spec_TodoView ''/api/v1/todos/'' =
       Some (ResolverMatch (collection_view spec_TodoView) [] ''todo-list'')
   \<and> resolve_path spec_TodoView ''/api/v1/todos'' = None
   \<and> resolve_path spec_TodoView ''/api/v1/todos/5/'' =
       Some (ResolverMatch (item_view spec_TodoView) [(''pk'', ''5'')] ''todo-detail'')
   \<and> resolve_path spec_TodoView ''/api/v1/todos/5'' = None
   \<and> prefix ''/api/v1/'' ''/api/v1/todos/5.json''
   \<and> resolve_path spec_TodoView ''/api/v1/todos/5.json'' =
       Some (ResolverMatch (item_view spec_TodoView) [(''pk'', ''5''), (''format'', ''json'')]
               ''todo-detail'')
   \<and> \<not> suffix ''/'' ''/api/v1/todos/5.json''
   \<and> map_of [(''pk'', ''5''), (''format'', ''json'')] ''format'' = Some ''json''"
proof -
  have h: "resolve_path spec_TodoView ''/api/v1/todos/5.json'' =
       Some (ResolverMatch (item_view spec_TodoView) [(''pk'', ''5''), (''format'', ''json'')]
               ''todo-detail'')"
    by (simp add: resolve_path_unfold router_urls_shape spec_TodoView_def get_method_map_def
        item_view_def)
  from slash_required_except_format_suffix
    [of spec_TodoView "''5''" "''/api/v1/todos/5.json''"
        "ResolverMatch (item_view spec_TodoView) [(''pk'', ''5''), (''format'', ''json'')]
               ''todo-detail''"]
    h
  show ?thesis
    by (simp add: spec_TodoView_def lookup_value_def suffix_def)
qed

end
